theory Spec2Isabelle
  imports Main "HOL-Library.Sublist"
begin

section \<open>The parsed document\<close>

text \<open>
  \<^verbatim>\<open>main.py\<close> never looks at markup as text: it hands the response body to
  \<^verbatim>\<open>BeautifulSoup(response.text, "html.parser")\<close> and works on the tree that comes back.
  The tree is the input of everything below. A \<open>Tag\<close> carries its name, the tokens of its
  \<^verbatim>\<open>class\<close> attribute (the parser splits that attribute at white space and stores a
  list; no attribute and an empty attribute are both the empty list), its other attributes
  as a dictionary, and its children. A \<open>NavigableString\<close> is a piece of text that
  \<^verbatim>\<open>get_text\<close> reports; a \<open>Comment\<close> stands for the string kinds it passes over
  (comments, and the text inside \<^verbatim>\<open>script\<close>, \<^verbatim>\<open>style\<close> and \<^verbatim>\<open>template\<close> elements, which
  the library reports only when \<^verbatim>\<open>get_text\<close> is called on such an element itself; that
  call is not covered).
  The \<^verbatim>\<open>BeautifulSoup\<close> object itself is a \<open>Tag\<close> (named \<^verbatim>\<open>[document]\<close>)
  whose children are the top-level nodes.
\<close>

datatype node =
    Tag (name: string) (class_attr: "string list") (attrs: "(string \<times> string) list")
        (contents: "node list")
  | NavigableString string
  | Comment string

text \<open>\<^verbatim>\<open>tag.descendants\<close>: every node below a tag, in document order (pre-order).\<close>

fun descendants :: "node \<Rightarrow> node list" where
  "descendants (Tag n c a ks) = concat (map (\<lambda>k. k # descendants k) ks)"
| "descendants (NavigableString s) = []"
| "descendants (Comment s) = []"

text \<open>
  \<^verbatim>\<open>find_all\<close> keeps the descendants that match, in document order; \<^verbatim>\<open>find\<close> is its
  first element or \<^verbatim>\<open>None\<close>. The CSS calls \<^verbatim>\<open>select\<close> and \<^verbatim>\<open>select_one\<close> walk the same
  descendants (never the tag they are called on) with a selector as the test.
\<close>

definition find_all :: "(node \<Rightarrow> bool) \<Rightarrow> node \<Rightarrow> node list" where
  "find_all p root = filter p (descendants root)"

definition find_tag :: "(node \<Rightarrow> bool) \<Rightarrow> node \<Rightarrow> node option" where
  "find_tag p root = (case find_all p root of [] \<Rightarrow> None | x # _ \<Rightarrow> Some x)"

definition select :: "(node \<Rightarrow> bool) \<Rightarrow> node \<Rightarrow> node list" where
  "select sel root = filter sel (descendants root)"

definition select_one :: "(node \<Rightarrow> bool) \<Rightarrow> node \<Rightarrow> node option" where
  "select_one sel root = (case select sel root of [] \<Rightarrow> None | x # _ \<Rightarrow> Some x)"

text \<open>The tests: a tag name out of a list, and the class selector \<^verbatim>\<open>.c\<close>.\<close>

fun named :: "string list \<Rightarrow> node \<Rightarrow> bool" where
  "named ns (Tag n c a ks) = (n \<in> set ns)"
| "named ns (NavigableString s) = False"
| "named ns (Comment s) = False"

fun has_class :: "string \<Rightarrow> node \<Rightarrow> bool" where
  "has_class c (Tag n cs a ks) = (c \<in> set cs)"
| "has_class c (NavigableString s) = False"
| "has_class c (Comment s) = False"

text \<open>\<^verbatim>\<open>tag.get(key)\<close>: the attribute's value, or \<^verbatim>\<open>None\<close>.\<close>

fun get_attr :: "node \<Rightarrow> string \<Rightarrow> string option" where
  "get_attr (Tag n cs a ks) k = map_of a k"
| "get_attr (NavigableString s) k = None"
| "get_attr (Comment s) k = None"

subsection \<open>Text extraction\<close>

text \<open>
  \<^verbatim>\<open>str.strip()\<close> removes white space at both ends. A \<open>char\<close> stands for a code point
  below 256; among these Python counts 9 to 13, 28 to 32, 133 and 160 (the no-break space)
  as white space. Text with code points from 256 on is not covered.
\<close>

definition newline :: char where
  "newline = CHR 0x0A"

definition is_space :: "char \<Rightarrow> bool" where
  "is_space c = (c \<in> set [CHR 0x09, CHR 0x0A, CHR 0x0B, CHR 0x0C, CHR 0x0D,
                            CHR 0x1C, CHR 0x1D, CHR 0x1E, CHR 0x1F, CHR 0x20,
                            CHR 0x85, CHR 0xA0])"

definition strip :: "string \<Rightarrow> string" where
  "strip s = rev (dropWhile is_space (rev (dropWhile is_space s)))"

text \<open>\<^verbatim>\<open>sep.join(parts)\<close>.\<close>

fun join :: "string \<Rightarrow> string list \<Rightarrow> string" where
  "join sep [] = []"
| "join sep [x] = x"
| "join sep (x # y # ys) = x @ sep @ join sep (y # ys)"

fun string_of :: "node \<Rightarrow> string option" where
  "string_of (NavigableString s) = Some s"
| "string_of (Tag n c a ks) = None"
| "string_of (Comment s) = None"

text \<open>
  \<^verbatim>\<open>tag.get_text(separator=sep, strip=True)\<close>: the strings below the tag in document
  order, each stripped, the empty ones dropped, joined by the separator.
\<close>

definition all_strings :: "node \<Rightarrow> string list" where
  "all_strings t = List.map_filter string_of (descendants t)"

definition stripped_strings :: "node \<Rightarrow> string list" where
  "stripped_strings t = filter (\<lambda>s. s \<noteq> []) (map strip (all_strings t))"

definition get_text :: "string \<Rightarrow> node \<Rightarrow> string" where
  "get_text sep t = join sep (stripped_strings t)"

section \<open>The search result parser\<close>

record search_result =
  title :: string
  url :: "string option"
  description :: string

text \<open>
  Lines 43 to 45 of \<^verbatim>\<open>search_duckduckgo\<close>: the three look-ups made on one result
  container. The title and the link are two calls with the same selector.
\<close>

definition title_elem :: "node \<Rightarrow> node option" where
  "title_elem result = select_one (has_class ''result__a'') result"

definition url_elem :: "node \<Rightarrow> node option" where
  "url_elem result = select_one (has_class ''result__a'') result"

definition snippet_elem :: "node \<Rightarrow> node option" where
  "snippet_elem result = select_one (has_class ''result__snippet'') result"

text \<open>Lines 47 to 52: the record appended when both look-ups found an element.\<close>

definition append_result :: "search_result list \<Rightarrow> node \<Rightarrow> search_result list" where
  "append_result results result =
     (case (title_elem result, url_elem result) of
        (Some t, Some u) \<Rightarrow>
          results @ [\<lparr>title = get_text [] t,
                      url = get_attr u ''href'',
                      description = (case snippet_elem result of
                                       Some s \<Rightarrow> get_text [] s
                                     | None \<Rightarrow> [])\<rparr>]
      | (Some t, None) \<Rightarrow> results
      | (None, _) \<Rightarrow> results)"

text \<open>
  The \<^verbatim>\<open>for\<close> loop of lines 42 to 55 over the list \<^verbatim>\<open>soup.select(".result")\<close>. Its
  state is the list of results so far; it returns that list together with the elements
  the loop never reached (all of them are left behind by a \<^verbatim>\<open>break\<close>, none when the
  list ran out).
\<close>

fun result_loop :: "int \<Rightarrow> search_result list \<Rightarrow> node list \<Rightarrow> search_result list \<times> node list" where
  "result_loop max_results results [] = (results, [])"
| "result_loop max_results results (result # rest) =
     (let results' = append_result results result
      in if int (length results') \<ge> max_results then (results', rest)
         else result_loop max_results results' rest)"

definition parse_results :: "int \<Rightarrow> node \<Rightarrow> search_result list" where
  "parse_results max_results soup =
     fst (result_loop max_results [] (select (has_class ''result'') soup))"

text \<open>
  What the specification calls a valid result element, and the record such an element
  gives: the two notions the properties of the parser are stated with.
\<close>

definition valid_result :: "node \<Rightarrow> bool" where
  "valid_result result = (title_elem result \<noteq> None \<and> url_elem result \<noteq> None)"

definition result_record :: "node \<Rightarrow> search_result" where
  "result_record result =
     \<lparr>title = (case title_elem result of Some t \<Rightarrow> get_text [] t | None \<Rightarrow> []),
      url = (case url_elem result of Some u \<Rightarrow> get_attr u ''href'' | None \<Rightarrow> None),
      description = (case snippet_elem result of Some s \<Rightarrow> get_text [] s | None \<Rightarrow> [])\<rparr>"

section \<open>The content extractor\<close>

text \<open>
  Lines 83 and 84 of \<^verbatim>\<open>read_url\<close>: every tag with one of the listed names is found and
  decomposed, which takes it and everything below it out of the tree. The function gives
  the tree that is left.
\<close>

definition boilerplate :: "string list" where
  "boilerplate = [''script'', ''style'', ''nav'', ''header'', ''footer'', ''aside'']"

fun decompose_all :: "string list \<Rightarrow> node \<Rightarrow> node" where
  "decompose_all ns (Tag n c a ks) =
     Tag n c a (map (decompose_all ns) (filter (\<lambda>k. \<not> named ns k) ks))"
| "decompose_all ns (NavigableString s) = NavigableString s"
| "decompose_all ns (Comment s) = Comment s"

text \<open>
  \<^verbatim>\<open>re.compile(r"content|article|post|main")\<close> used with \<^verbatim>\<open>search\<close>: an alternation of
  literal words matches a string when one of the words occurs in it.
\<close>

definition content_pattern :: "string list" where
  "content_pattern = [''content'', ''article'', ''post'', ''main'']"

definition re_search :: "string list \<Rightarrow> string \<Rightarrow> bool" where
  "re_search alts s = list_ex (\<lambda>p. sublist p s) alts"

text \<open>
  The keyword \<^verbatim>\<open>class_=regex\<close> of \<^verbatim>\<open>find\<close>: the library tries the expression on every
  token of the class attribute, then on the tokens joined by one space.
\<close>

fun class_matches :: "(string \<Rightarrow> bool) \<Rightarrow> node \<Rightarrow> bool" where
  "class_matches re (Tag n cs a ks) = (list_ex re cs \<or> re (join '' '' cs))"
| "class_matches re (NavigableString s) = False"
| "class_matches re (Comment s) = False"

text \<open>Python's \<^verbatim>\<open>a or b\<close> on the results of \<^verbatim>\<open>find\<close>: a tag is always true.\<close>

definition or_else :: "'a option \<Rightarrow> 'a option \<Rightarrow> 'a option" where
  "or_else a b = (case a of Some x \<Rightarrow> Some x | None \<Rightarrow> b)"

text \<open>Line 86.\<close>

definition main_content :: "node \<Rightarrow> node option" where
  "main_content soup =
     or_else (find_tag (named [''main'']) soup)
       (or_else (find_tag (named [''article'']) soup)
          (or_else (find_tag (\<lambda>e. named [''div''] e \<and> class_matches (re_search content_pattern) e) soup)
             (find_tag (named [''body'']) soup)))"

text \<open>
  \<^verbatim>\<open>re.sub(r"\n+", "\n", text)\<close>: from left to right, every maximal run of newlines is
  replaced by one newline.
\<close>

function re_sub_newlines :: "string \<Rightarrow> string" where
  "re_sub_newlines [] = []"
| "re_sub_newlines (c # cs) =
     (if c = newline then newline # re_sub_newlines (dropWhile (\<lambda>d. d = newline) cs)
      else c # re_sub_newlines cs)"
  by pat_completeness auto
termination
  by (relation "measure length") (auto simp: length_dropWhile_le less_Suc_eq_le)

text \<open>Lines 80 and 81, and lines 83 to 93.\<close>

definition extract_title :: "node \<Rightarrow> string" where
  "extract_title soup =
     (case find_tag (named [''title'']) soup of Some t \<Rightarrow> get_text [] t | None \<Rightarrow> [])"

definition serialized_text :: "node \<Rightarrow> string" where
  "serialized_text soup =
     (let soup' = decompose_all boilerplate soup
      in case main_content soup' of
           Some m \<Rightarrow> get_text [newline] m
         | None \<Rightarrow> get_text [newline] soup')"

definition extract_content :: "node \<Rightarrow> string" where
  "extract_content soup = re_sub_newlines (serialized_text soup)"

text \<open>
  The selection in the words of the specification, whose third step takes the first
  element of any tag with a matching class.
\<close>

definition claimed_main_content :: "node \<Rightarrow> node option" where
  "claimed_main_content soup =
     or_else (find_tag (named [''main'']) soup)
       (or_else (find_tag (named [''article'']) soup)
          (or_else (find_tag (class_matches (re_search content_pattern)) soup)
             (find_tag (named [''body'']) soup)))"

text \<open>
  The strings of a document that lie outside every element with one of the given names,
  in document order, read off the document as it was parsed.
\<close>

fun text_nodes_outside :: "string list \<Rightarrow> node \<Rightarrow> string list" where
  "text_nodes_outside ns (NavigableString s) = [s]"
| "text_nodes_outside ns (Comment s) = []"
| "text_nodes_outside ns (Tag n c a ks) =
     (if n \<in> set ns then [] else concat (map (text_nodes_outside ns) ks))"

fun outside_strings :: "string list \<Rightarrow> node \<Rightarrow> string list" where
  "outside_strings ns (Tag n c a ks) = concat (map (text_nodes_outside ns) ks)"
| "outside_strings ns (NavigableString s) = []"
| "outside_strings ns (Comment s) = []"

text \<open>
  The lines of a text as \<^verbatim>\<open>text.split("\n")\<close> gives them, and what it is for a text to
  have a blank line: a line with nothing on it but white space.
\<close>

fun split_lines :: "string \<Rightarrow> string list" where
  "split_lines [] = [[]]"
| "split_lines (c # cs) =
     (if c = newline then [] # split_lines cs
      else (case split_lines cs of [] \<Rightarrow> [[c]] | l # ls \<Rightarrow> (c # l) # ls))"

definition has_blank_line :: "string \<Rightarrow> bool" where
  "has_blank_line s = list_ex (list_all is_space) (split_lines s)"

section \<open>The outside world and the handlers\<close>

text \<open>
  An exception is known by whether it is an \<^verbatim>\<open>httpx.RequestError\<close> and by its message
  \<^verbatim>\<open>str(e)\<close>. Only subclasses of \<^verbatim>\<open>Exception\<close> are modelled, the ones both handlers
  catch.
\<close>

datatype exn = RequestError string | OtherException string

fun str :: "exn \<Rightarrow> string" where
  "str (RequestError m) = m"
| "str (OtherException m) = m"

fun is_request_error :: "exn \<Rightarrow> bool" where
  "is_request_error (RequestError m) = True"
| "is_request_error (OtherException m) = False"

record response =
  resp_text :: string
  resp_url :: string
  status_code :: int
  cookies :: "(string \<times> string) list"

text \<open>
  The network and the HTML parser are parameters: \<open>http_get url headers follow_redirects\<close>,
  \<open>http_post url headers data cookies\<close> and the constructor \<^verbatim>\<open>BeautifulSoup\<close> each
  return a value or raise.
\<close>

record env =
  http_get :: "string \<Rightarrow> (string \<times> string) list \<Rightarrow> bool \<Rightarrow> exn + response"
  http_post :: "string \<Rightarrow> (string \<times> string) list \<Rightarrow> (string \<times> string) list \<Rightarrow>
                (string \<times> string) list \<Rightarrow> exn + response"
  html_parser :: "string \<Rightarrow> exn + node"

definition search_url :: string where
  "search_url = ''https://html.duckduckgo.com/html/''"

definition headers :: "(string \<times> string) list" where
  "headers = [(''User-Agent'',
     ''Mozilla/5.0 (Windows NT 10.0; Win64; x64) AppleWebKit/537.36 (KHTML, like Gecko) Chrome/91.0.4472.124 Safari/537.36'')]"

definition search_duckduckgo :: "env \<Rightarrow> string \<Rightarrow> int \<Rightarrow> exn + search_result list" where
  "search_duckduckgo env query max_results =
     (case http_get env search_url headers False of
        Inl e \<Rightarrow> Inl e
      | Inr response \<Rightarrow>
          (case http_post env search_url headers [(''q'', query), (''kl'', [])] (cookies response) of
             Inl e \<Rightarrow> Inl e
           | Inr response' \<Rightarrow>
               (case html_parser env (resp_text response') of
                  Inl e \<Rightarrow> Inl e
                | Inr soup \<Rightarrow> Inr (parse_results max_results soup))))"

record page =
  page_url :: string
  page_title :: string
  page_content :: string
  page_status_code :: int

datatype http_exception = HTTPException (exc_status: int) (detail: string)

text \<open>The two \<^verbatim>\<open>except\<close> clauses of \<^verbatim>\<open>read_url\<close>, tried in their order.\<close>

definition except_clauses :: "exn \<Rightarrow> http_exception" where
  "except_clauses e =
     (if is_request_error e then HTTPException 400 (''Error fetching URL: '' @ str e)
      else HTTPException 500 (''Error parsing content: '' @ str e))"

definition read_url :: "env \<Rightarrow> string \<Rightarrow> http_exception + page" where
  "read_url env u =
     (case http_get env u headers True of
        Inl e \<Rightarrow> Inl (except_clauses e)
      | Inr response \<Rightarrow>
          (case html_parser env (resp_text response) of
             Inl e \<Rightarrow> Inl (except_clauses e)
           | Inr soup \<Rightarrow>
               Inr \<lparr>page_url = resp_url response,
                    page_title = extract_title soup,
                    page_content = extract_content soup,
                    page_status_code = status_code response\<rparr>))"

text \<open>
  The handlers. The framework answers 200 with the dictionary a handler returns, and
  answers an \<^verbatim>\<open>HTTPException\<close> with its status code and the body \<^verbatim>\<open>{"detail": ...}\<close>.
\<close>

datatype search_json =
    SearchResults string nat "search_result list"
  | SearchFailure string string "search_result list"

datatype read_json = PageJson page | DetailJson string

datatype 'a http_response = HttpResponse (status: int) (body: 'a)

definition search :: "env \<Rightarrow> string \<Rightarrow> int \<Rightarrow> search_json http_response" where
  "search env q limit =
     (case search_duckduckgo env q limit of
        Inr results \<Rightarrow> HttpResponse 200 (SearchResults q (length results) results)
      | Inl e \<Rightarrow> HttpResponse 200 (SearchFailure q (str e) []))"

definition read :: "env \<Rightarrow> string \<Rightarrow> read_json http_response" where
  "read env u =
     (case read_url env u of
        Inr p \<Rightarrow> HttpResponse 200 (PageJson p)
      | Inl (HTTPException s d) \<Rightarrow> HttpResponse s (DetailJson d))"

section \<open>Example documents\<close>

text \<open>A result container as the provider renders it, and a page of three with an
  advertisement (a container without a link) between the first two.\<close>

definition result_elem :: "string \<Rightarrow> string \<Rightarrow> string \<Rightarrow> node" where
  "result_elem t h s =
     Tag ''div'' [''result''] []
       [Tag ''a'' [''result__a''] [(''href'', h)] [NavigableString t],
        Tag ''a'' [''result__snippet''] [] [NavigableString s]]"

definition example_page :: node where
  "example_page =
     Tag ''[document]'' [] []
       [result_elem ''T1'' ''u1'' ''S1'',
        Tag ''div'' [''result''] [] [NavigableString ''ad''],
        result_elem ''T2'' ''u2'' ''S2'',
        result_elem ''T3'' ''u3'' ''S3'']"

definition advert :: node where
  "advert = Tag ''div'' [''result''] [] [NavigableString ''ad'']"

definition result_without_href :: node where
  "result_without_href =
     Tag ''div'' [''result''] [] [Tag ''a'' [''result__a''] [] [NavigableString ''T'']]"

definition failing_env :: "exn \<Rightarrow> env" where
  "failing_env e =
     \<lparr>http_get = (\<lambda>u h f. Inl e), http_post = (\<lambda>u h d c. Inl e), html_parser = (\<lambda>t. Inl e)\<rparr>"

definition static_env :: "response \<Rightarrow> exn + node \<Rightarrow> env" where
  "static_env r parsed =
     \<lparr>http_get = (\<lambda>u h f. Inr r), http_post = (\<lambda>u h d c. Inr r), html_parser = (\<lambda>t. parsed)\<rparr>"

definition not_found_response :: response where
  "not_found_response =
     \<lparr>resp_text = ''<body>Not Found</body>'', resp_url = ''http://example.com/missing'',
      status_code = 404, cookies = []\<rparr>"


definition blank_lines_soup :: node where
  "blank_lines_soup =
     Tag ''[document]'' [] []
       [Tag ''body'' [] [] [NavigableString (''A'' @ [newline, newline, newline] @ ''B'')]]"

definition script_soup :: node where
  "script_soup =
     Tag ''[document]'' [] []
       [Tag ''body'' [] []
          [Tag ''main'' [] []
             [NavigableString ''Hello'',
              Tag ''script'' [] [] [NavigableString ''var x = 1;''],
              Tag ''div'' [] [] [Tag ''aside'' [] [] [NavigableString ''Related''],
                                NavigableString ''World'']],
           Tag ''footer'' [] [] [NavigableString ''Imprint'']]]"

definition main_article_soup :: node where
  "main_article_soup =
     Tag ''[document]'' [] []
       [Tag ''body'' [] []
          [Tag ''article'' [] [] [NavigableString ''Article''],
           Tag ''main'' [] [] [NavigableString ''Main'']]]"

definition section_soup :: node where
  "section_soup =
     Tag ''[document]'' [] []
       [Tag ''body'' [] []
          [Tag ''section'' [''content''] [] [NavigableString ''X''],
           NavigableString ''Y'']]"

definition mixed_page :: node where
  "mixed_page =
     Tag ''[document]'' [] []
       [result_elem ''T1'' ''u1'' ''S1'', advert, result_without_href]"

definition space_line_soup :: node where
  "space_line_soup =
     Tag ''[document]'' [] []
       [Tag ''body'' [] [] [NavigableString (''A'' @ [newline] @ '' '' @ [newline] @ ''B'')]]"

section \<open>Properties of the search result parser\<close>

lemma first_of_filter:
  "(case filter p xs of [] \<Rightarrow> None | x # _ \<Rightarrow> Some x) = List.find p xs"
  by (induction xs) auto

lemma select_one_find: "select_one p t = List.find p (descendants t)"
  by (simp add: select_one_def select_def first_of_filter)

lemma append_result_valid:
  "append_result acc r = (if valid_result r then acc @ [result_record r] else acc)"
  by (auto simp: append_result_def valid_result_def result_record_def split: option.splits)

text \<open>While the limit is not reached, the loop adds the records of the valid elements
  until the limit is met.\<close>

lemma result_loop_fst:
  "int (length acc) < N \<Longrightarrow>
   fst (result_loop N acc xs) =
     acc @ take (nat N - length acc) (map result_record (filter valid_result xs))"
proof (induction xs arbitrary: acc)
  case Nil
  then show ?case by simp
next
  case (Cons r xs)
  show ?case
  proof (cases "valid_result r")
    case False
    with Cons show ?thesis by (simp add: append_result_valid)
  next
    case True
    show ?thesis
    proof (cases "N \<le> int (length acc) + 1")
      case True
      with Cons.prems have "nat N - length acc = 1" by linarith
      with True \<open>valid_result r\<close> show ?thesis by (simp add: append_result_valid)
    next
      case False
      then have lt: "int (length (acc @ [result_record r])) < N" by simp
      have "nat N - length acc = Suc (nat N - length (acc @ [result_record r]))"
        using False by simp
      with False \<open>valid_result r\<close> Cons.IH [OF lt] show ?thesis
        by (simp add: append_result_valid)
    qed
  qed
qed

lemma result_loop_snd_few:
  "int (length acc) < N \<Longrightarrow> int (length acc + length (filter valid_result xs)) < N \<Longrightarrow>
   snd (result_loop N acc xs) = []"
  by (induction xs arbitrary: acc) (auto simp: append_result_valid Let_def)

text \<open>When enough valid elements are there, the elements the loop went through end with
  the valid element that met the limit; the others are left untouched.\<close>

lemma result_loop_snd:
  "int (length acc) < N \<Longrightarrow> N \<le> int (length acc + length (filter valid_result xs)) \<Longrightarrow>
   \<exists>visited. xs = visited @ snd (result_loop N acc xs) \<and> visited \<noteq> [] \<and>
      valid_result (last visited) \<and>
      int (length acc + length (filter valid_result visited)) = N"
proof (induction xs arbitrary: acc)
  case Nil
  then show ?case by simp
next
  case (Cons r xs)
  show ?case
  proof (cases "valid_result r")
    case False
    with Cons.prems have "N \<le> int (length acc + length (filter valid_result xs))" by simp
    from Cons.IH [OF Cons.prems(1) this] obtain visited where
      v: "xs = visited @ snd (result_loop N acc xs)" "visited \<noteq> []"
         "valid_result (last visited)"
         "int (length acc + length (filter valid_result visited)) = N" by blast
    have "r # xs = (r # visited) @ snd (result_loop N acc (r # xs))"
      using v(1) False Cons.prems(1) by (simp add: append_result_valid)
    with v False show ?thesis
      by (intro exI [of _ "r # visited"]) simp
  next
    case True
    show ?thesis
    proof (cases "N \<le> int (length acc) + 1")
      case le: True
      with Cons.prems(1) have "int (length acc) + 1 = N" by simp
      with True le show ?thesis
        by (intro exI [of _ "[r]"]) (simp add: append_result_valid)
    next
      case False
      then have lt: "int (length (acc @ [result_record r])) < N" by simp
      have "N \<le> int (length (acc @ [result_record r]) + length (filter valid_result xs))"
        using Cons.prems(2) True by simp
      from Cons.IH [OF lt this] obtain visited where
        v: "xs = visited @ snd (result_loop N (acc @ [result_record r]) xs)" "visited \<noteq> []"
           "valid_result (last visited)"
           "int (length (acc @ [result_record r]) + length (filter valid_result visited)) = N"
        by blast
      have "r # xs = (r # visited) @ snd (result_loop N acc (r # xs))"
        using v(1) True False by (simp add: append_result_valid)
      with v True show ?thesis
        by (intro exI [of _ "r # visited"]) simp
    qed
  qed
qed

text \<open>The example page, evaluated.\<close>

lemma example_select:
  "select (has_class ''result'') example_page =
     [result_elem ''T1'' ''u1'' ''S1'',
      Tag ''div'' [''result''] [] [NavigableString ''ad''],
      result_elem ''T2'' ''u2'' ''S2'',
      result_elem ''T3'' ''u3'' ''S3'']"
  by (simp add: select_def example_page_def result_elem_def)

lemma valid_result_elem: "valid_result (result_elem t h s)"
  by (simp add: valid_result_def title_elem_def url_elem_def select_one_def select_def
      result_elem_def)

lemma invalid_ad: "\<not> valid_result (Tag ''div'' [''result''] [] [NavigableString ''ad''])"
  by (simp add: valid_result_def title_elem_def url_elem_def select_one_def select_def)

lemma example_valid:
  "filter valid_result (select (has_class ''result'') example_page) =
     [result_elem ''T1'' ''u1'' ''S1'', result_elem ''T2'' ''u2'' ''S2'',
      result_elem ''T3'' ''u3'' ''S3'']"
  by (simp add: example_select valid_result_elem invalid_ad)

lemma strip_plain:
  "strip ''T1'' = ''T1''" "strip ''S1'' = ''S1''"
  "strip ''T2'' = ''T2''" "strip ''S2'' = ''S2''"
  "strip ''T3'' = ''T3''" "strip ''S3'' = ''S3''"
  by (simp_all add: strip_def is_space_def)

lemma result_record_elems:
  "result_record (result_elem ''T1'' ''u1'' ''S1'') =
     \<lparr>title = ''T1'', url = Some ''u1'', description = ''S1''\<rparr>"
  "result_record (result_elem ''T2'' ''u2'' ''S2'') =
     \<lparr>title = ''T2'', url = Some ''u2'', description = ''S2''\<rparr>"
  "result_record (result_elem ''T3'' ''u3'' ''S3'') =
     \<lparr>title = ''T3'', url = Some ''u3'', description = ''S3''\<rparr>"
  by (simp_all add: result_record_def title_elem_def url_elem_def snippet_elem_def
      select_one_def select_def result_elem_def get_text_def stripped_strings_def
      all_strings_def List.map_filter_def strip_plain)

text \<open>
  C4. For a limit \<open>N \<ge> 1\<close> and a page whose result containers include at least \<open>N\<close>
  valid ones, the parser returns exactly \<open>N\<close> records, those of the first \<open>N\<close> valid
  containers in document order; and the loop stops at the container that gave the
  \<open>N\<close>-th record: the containers it went through end with that one, and every later
  container is left over, never reached by the loop body. (The list of containers itself
  is built by \<^verbatim>\<open>soup.select\<close> before the loop starts.)
\<close>

theorem parser_first_N:
  assumes "1 \<le> N"
    and "N \<le> int (length (filter valid_result (select (has_class ''result'') soup)))"
  shows "parse_results N soup =
           take (nat N) (map result_record (filter valid_result (select (has_class ''result'') soup)))
       \<and> int (length (parse_results N soup)) = N
       \<and> (\<exists>visited.
            select (has_class ''result'') soup =
              visited @ snd (result_loop N [] (select (has_class ''result'') soup))
            \<and> visited \<noteq> [] \<and> valid_result (last visited)
            \<and> int (length (filter valid_result visited)) = N)"
proof -
  let ?xs = "select (has_class ''result'') soup"
  have lt: "int (length ([] :: search_result list)) < N" using assms(1) by simp
  have a: "parse_results N soup = take (nat N) (map result_record (filter valid_result ?xs))"
    using result_loop_fst [OF lt, of ?xs] by (simp add: parse_results_def)
  have b: "int (length (parse_results N soup)) = N"
    using assms by (simp add: a)
  have "N \<le> int (length ([] :: search_result list) + length (filter valid_result ?xs))"
    using assms(2) by simp
  from result_loop_snd [OF lt this] have c: "\<exists>visited.
            ?xs = visited @ snd (result_loop N [] ?xs)
            \<and> visited \<noteq> [] \<and> valid_result (last visited)
            \<and> int (length (filter valid_result visited)) = N" by simp
  from a b c show ?thesis by blast
qed

theorem parser_first_N_witness:
  "(1::int) \<le> 2
   \<and> 2 \<le> int (length (filter valid_result (select (has_class ''result'') example_page)))
   \<and> parse_results 2 example_page =
       [\<lparr>title = ''T1'', url = Some ''u1'', description = ''S1''\<rparr>,
        \<lparr>title = ''T2'', url = Some ''u2'', description = ''S2''\<rparr>]
   \<and> snd (result_loop 2 [] (select (has_class ''result'') example_page)) =
       [result_elem ''T3'' ''u3'' ''S3'']"
proof -
  have h1: "(1::int) \<le> 2" by simp
  have h2: "2 \<le> int (length (filter valid_result (select (has_class ''result'') example_page)))"
    by (simp add: example_valid)
  have "parse_results 2 example_page =
       [\<lparr>title = ''T1'', url = Some ''u1'', description = ''S1''\<rparr>,
        \<lparr>title = ''T2'', url = Some ''u2'', description = ''S2''\<rparr>]"
    using parser_first_N [OF h1 h2] by (simp add: example_valid result_record_elems)
  moreover have "snd (result_loop 2 [] (select (has_class ''result'') example_page)) =
       [result_elem ''T3'' ''u3'' ''S3'']"
    by (simp add: example_select append_result_valid valid_result_elem invalid_ad)
  ultimately show ?thesis using h1 h2 by blast
qed

text \<open>
  C5. For a limit \<open>N \<ge> 1\<close> and a page with \<open>M < N\<close> valid result containers, the
  parser returns exactly the \<open>M\<close> records of those containers, in document order: the
  output is not padded, and the loop ends by running out of containers (nothing is left
  over). The parser is a total function into lists, so no error is raised.
\<close>

theorem parser_fewer_than_N:
  assumes "1 \<le> N"
    and "int (length (filter valid_result (select (has_class ''result'') soup))) < N"
  shows "parse_results N soup =
           map result_record (filter valid_result (select (has_class ''result'') soup))
       \<and> length (parse_results N soup) =
           length (filter valid_result (select (has_class ''result'') soup))
       \<and> snd (result_loop N [] (select (has_class ''result'') soup)) = []"
proof -
  let ?xs = "select (has_class ''result'') soup"
  have lt: "int (length ([] :: search_result list)) < N" using assms(1) by simp
  have a: "parse_results N soup = map result_record (filter valid_result ?xs)"
    using result_loop_fst [OF lt, of ?xs] assms(2) by (simp add: parse_results_def)
  have "int (length ([] :: search_result list) + length (filter valid_result ?xs)) < N"
    using assms(2) by simp
  from result_loop_snd_few [OF lt this] a show ?thesis by simp
qed

theorem parser_fewer_than_N_witness:
  "(1::int) \<le> 5
   \<and> int (length (filter valid_result (select (has_class ''result'') example_page))) < 5
   \<and> parse_results 5 example_page =
       [\<lparr>title = ''T1'', url = Some ''u1'', description = ''S1''\<rparr>,
        \<lparr>title = ''T2'', url = Some ''u2'', description = ''S2''\<rparr>,
        \<lparr>title = ''T3'', url = Some ''u3'', description = ''S3''\<rparr>]
   \<and> length (parse_results 5 example_page) = 3"
proof -
  have h1: "(1::int) \<le> 5" by simp
  have h2: "int (length (filter valid_result (select (has_class ''result'') example_page))) < 5"
    by (simp add: example_valid)
  from parser_fewer_than_N [OF h1 h2] h1 h2 show ?thesis
    by (simp add: example_valid result_record_elems)
qed

lemma title_url_same: "title_elem r = url_elem r"
  by (simp add: title_elem_def url_elem_def)

lemma valid_result_iff: "valid_result r \<longleftrightarrow> \<not> (title_elem r = None \<and> url_elem r = None)"
  by (simp add: valid_result_def title_url_same)

lemma result_loop_filter:
  "int (length acc) < N \<Longrightarrow>
   fst (result_loop N acc (filter valid_result xs)) = fst (result_loop N acc xs)"
  by (simp add: result_loop_fst)

text \<open>
  C6. For a limit \<open>N \<ge> 1\<close>: a result container with neither a title element nor a
  link element adds nothing to the results; the parser's output is the same as on the list
  of containers with all such containers taken out, so they do not count toward the limit;
  and every record of the output comes from a container that has one, and its description
  is the stripped text of the first element of class \<^verbatim>\<open>result__snippet\<close> below that
  container, or the empty string when there is no such element.
\<close>

theorem lacking_result_skipped:
  assumes "1 \<le> N"
  shows "(title_elem r = None \<and> url_elem r = None \<longrightarrow> append_result acc r = acc)
       \<and> parse_results N soup =
           fst (result_loop N []
                  (filter (\<lambda>r. \<not> (title_elem r = None \<and> url_elem r = None))
                     (select (has_class ''result'') soup)))
       \<and> (\<forall>x \<in> set (parse_results N soup).
            \<exists>r \<in> set (select (has_class ''result'') soup).
              \<not> (title_elem r = None \<and> url_elem r = None) \<and> x = result_record r \<and>
              description x =
                (case List.find (has_class ''result__snippet'') (descendants r) of
                   Some s \<Rightarrow> get_text [] s
                 | None \<Rightarrow> []))"
proof -
  let ?xs = "select (has_class ''result'') soup"
  have lt: "int (length ([] :: search_result list)) < N" using assms by simp
  have a: "title_elem r = None \<and> url_elem r = None \<longrightarrow> append_result acc r = acc"
    by (simp add: append_result_def)
  have f: "(\<lambda>r. \<not> (title_elem r = None \<and> url_elem r = None)) = valid_result"
    by (rule ext) (simp add: valid_result_iff)
  have b: "parse_results N soup = fst (result_loop N [] (filter valid_result ?xs))"
    using result_loop_filter [OF lt, of ?xs] by (simp add: parse_results_def)
  have c: "\<exists>r \<in> set ?xs. \<not> (title_elem r = None \<and> url_elem r = None) \<and> x = result_record r \<and>
              description x =
                (case List.find (has_class ''result__snippet'') (descendants r) of
                   Some s \<Rightarrow> get_text [] s
                 | None \<Rightarrow> [])"
    if "x \<in> set (parse_results N soup)" for x
  proof -
    from that have "x \<in> set (take (nat N) (map result_record (filter valid_result ?xs)))"
      using result_loop_fst [OF lt, of ?xs] by (simp add: parse_results_def)
    then have "x \<in> set (map result_record (filter valid_result ?xs))"
      by (rule in_set_takeD)
    then obtain r where "r \<in> set ?xs" "valid_result r" "x = result_record r" by auto
    then show ?thesis
      by (intro bexI [of _ r])
         (simp_all add: valid_result_iff result_record_def snippet_elem_def select_one_find)
  qed
  from a b c show ?thesis unfolding f by blast
qed

lemma advert_lacks: "title_elem advert = None" "url_elem advert = None"
  by (simp_all add: advert_def title_elem_def url_elem_def select_one_def select_def)

lemma mixed_select:
  "select (has_class ''result'') mixed_page =
     [result_elem ''T1'' ''u1'' ''S1'', advert, result_without_href]"
  by (simp add: select_def mixed_page_def result_elem_def advert_def result_without_href_def)

lemma mixed_snippets:
  "List.find (has_class ''result__snippet'') (descendants (result_elem ''T1'' ''u1'' ''S1'')) =
     Some (Tag ''a'' [''result__snippet''] [] [NavigableString ''S1''])"
  "List.find (has_class ''result__snippet'') (descendants advert) = None"
  "List.find (has_class ''result__snippet'') (descendants result_without_href) = None"
  by (simp_all add: result_elem_def advert_def result_without_href_def)

lemma mixed_lacking:
  "\<not> (title_elem (result_elem ''T1'' ''u1'' ''S1'') = None \<and>
       url_elem (result_elem ''T1'' ''u1'' ''S1'') = None)"
  "\<not> (title_elem result_without_href = None \<and> url_elem result_without_href = None)"
  by (simp_all add: title_elem_def url_elem_def select_one_find result_elem_def
      result_without_href_def)

theorem lacking_result_skipped_witness:
  "(1::int) \<le> 5 \<and> title_elem advert = None \<and> url_elem advert = None
   \<and> append_result [] advert = []
   \<and> parse_results 5 mixed_page =
       [\<lparr>title = ''T1'', url = Some ''u1'', description = ''S1''\<rparr>,
        \<lparr>title = ''T'', url = None, description = []\<rparr>]
   \<and> (\<exists>r \<in> set (select (has_class ''result'') mixed_page).
         \<lparr>title = ''T1'', url = Some ''u1'', description = ''S1''\<rparr> = result_record r \<and>
         ''S1'' = (case List.find (has_class ''result__snippet'') (descendants r) of
                     Some s \<Rightarrow> get_text [] s
                   | None \<Rightarrow> []))
   \<and> (\<exists>r \<in> set (select (has_class ''result'') mixed_page).
         \<lparr>title = ''T'', url = None, description = []\<rparr> = result_record r \<and>
         [] = (case List.find (has_class ''result__snippet'') (descendants r) of
                 Some s \<Rightarrow> get_text [] s
               | None \<Rightarrow> []))
   \<and> List.find (has_class ''result__snippet'') (descendants (result_elem ''T1'' ''u1'' ''S1'')) =
       Some (Tag ''a'' [''result__snippet''] [] [NavigableString ''S1''])
   \<and> List.find (has_class ''result__snippet'') (descendants result_without_href) = None"
proof -
  have h: "(1::int) \<le> 5" by simp
  note t = lacking_result_skipped [OF h, of advert "[]" mixed_page]
  have a: "append_result [] advert = []"
    using t advert_lacks by blast
  have flt: "filter (\<lambda>r. \<not> (title_elem r = None \<and> url_elem r = None))
               (select (has_class ''result'') mixed_page) =
             [result_elem ''T1'' ''u1'' ''S1'', result_without_href]"
    unfolding mixed_select using mixed_lacking advert_lacks by simp
  have b: "parse_results 5 mixed_page =
       fst (result_loop 5 [] [result_elem ''T1'' ''u1'' ''S1'', result_without_href])"
    using t unfolding flt by blast
  have rec: "result_record result_without_href = \<lparr>title = ''T'', url = None, description = []\<rparr>"
    by (simp add: result_record_def title_elem_def url_elem_def snippet_elem_def
        select_one_find result_without_href_def get_text_def stripped_strings_def
        all_strings_def List.map_filter_def strip_def is_space_def)
  have v: "valid_result (result_elem ''T1'' ''u1'' ''S1'')" "valid_result result_without_href"
    using mixed_lacking by (simp_all add: valid_result_iff)
  have p: "parse_results 5 mixed_page =
       [\<lparr>title = ''T1'', url = Some ''u1'', description = ''S1''\<rparr>,
        \<lparr>title = ''T'', url = None, description = []\<rparr>]"
    unfolding b by (simp add: append_result_valid v result_record_elems rec)
  have all: "\<forall>x \<in> set (parse_results 5 mixed_page).
            \<exists>r \<in> set (select (has_class ''result'') mixed_page).
              \<not> (title_elem r = None \<and> url_elem r = None) \<and> x = result_record r \<and>
              description x =
                (case List.find (has_class ''result__snippet'') (descendants r) of
                   Some s \<Rightarrow> get_text [] s
                 | None \<Rightarrow> [])"
    using t by blast
  have c1: "\<exists>r \<in> set (select (has_class ''result'') mixed_page).
         \<lparr>title = ''T1'', url = Some ''u1'', description = ''S1''\<rparr> = result_record r \<and>
         ''S1'' = (case List.find (has_class ''result__snippet'') (descendants r) of
                     Some s \<Rightarrow> get_text [] s
                   | None \<Rightarrow> [])"
    using all unfolding p by fastforce
  have c2: "\<exists>r \<in> set (select (has_class ''result'') mixed_page).
         \<lparr>title = ''T'', url = None, description = []\<rparr> = result_record r \<and>
         [] = (case List.find (has_class ''result__snippet'') (descendants r) of
                 Some s \<Rightarrow> get_text [] s
               | None \<Rightarrow> [])"
    using all unfolding p by fastforce
  from h a p c1 c2 advert_lacks mixed_snippets show ?thesis by blast
qed

text \<open>
  C10. The title element and the link element of a container are the same look-up (the
  first descendant with class \<^verbatim>\<open>result__a\<close>), so one is present exactly when the other
  is; and for a container whose anchor has no \<^verbatim>\<open>href\<close> attribute the record is still
  appended, with \<^verbatim>\<open>None\<close> (JSON null) as its url.
\<close>

theorem title_and_url_same_node:
  "title_elem r = url_elem r
   \<and> (title_elem r \<noteq> None \<longleftrightarrow> url_elem r \<noteq> None)
   \<and> (\<forall>a. url_elem r = Some a \<and> get_attr a ''href'' = None \<longrightarrow>
        append_result acc r =
          acc @ [\<lparr>title = get_text [] a, url = None,
                   description = (case snippet_elem r of
                                    Some s \<Rightarrow> get_text [] s | None \<Rightarrow> [])\<rparr>])"
  by (simp add: title_url_same append_result_def)

theorem title_and_url_same_node_witness:
  "url_elem result_without_href = Some (Tag ''a'' [''result__a''] [] [NavigableString ''T''])
   \<and> get_attr (Tag ''a'' [''result__a''] [] [NavigableString ''T'']) ''href'' = None
   \<and> append_result [] result_without_href = [\<lparr>title = ''T'', url = None, description = []\<rparr>]
   \<and> parse_results 1 (Tag ''[document]'' [] [] [result_without_href]) =
       [\<lparr>title = ''T'', url = None, description = []\<rparr>]"
proof -
  let ?a = "Tag ''a'' [''result__a''] [] [NavigableString ''T'']"
  have u: "url_elem result_without_href = Some ?a"
    by (simp add: result_without_href_def url_elem_def select_one_def select_def)
  have g: "get_attr ?a ''href'' = None" by simp
  have s: "snippet_elem result_without_href = None"
    by (simp add: result_without_href_def snippet_elem_def select_one_def select_def)
  have t: "get_text [] ?a = ''T''"
    by (simp add: get_text_def stripped_strings_def all_strings_def List.map_filter_def
        strip_def is_space_def)
  have ap: "append_result [] result_without_href = [\<lparr>title = ''T'', url = None, description = []\<rparr>]"
    using title_and_url_same_node [of result_without_href "[]"] u g s t by simp
  have "select (has_class ''result'') (Tag ''[document]'' [] [] [result_without_href])
          = [result_without_href]"
    by (simp add: select_def result_without_href_def)
  then have "parse_results 1 (Tag ''[document]'' [] [] [result_without_href]) =
       [\<lparr>title = ''T'', url = None, description = []\<rparr>]"
    by (simp add: parse_results_def ap)
  with u g ap show ?thesis by blast
qed

section \<open>Properties of the handlers\<close>

text \<open>
  C2 (amended). For every query \<open>q\<close> and limit, the \<^verbatim>\<open>/search\<close> handler always answers with
  status 200; when the search raises an exception \<open>e\<close> (in the first request, in the
  second, or in the HTML parser) the body is \<^verbatim>\<open>{query: q, error: str(e), results: []}\<close>,
  with no result beside the error. The error string is the exception's own message,
  which is empty for an exception that carries none.
\<close>

theorem search_failure_response:
  "status (search env q limit) = 200
   \<and> (search_duckduckgo env q limit = Inl e \<longrightarrow>
        search env q limit = HttpResponse 200 (SearchFailure q (str e) []))
   \<and> (http_get env search_url headers False = Inl e \<longrightarrow>
        search_duckduckgo env q limit = Inl e)
   \<and> (http_get env search_url headers False = Inr r \<and>
      http_post env search_url headers [(''q'', q), (''kl'', [])] (cookies r) = Inl e \<longrightarrow>
        search_duckduckgo env q limit = Inl e)
   \<and> (http_get env search_url headers False = Inr r \<and>
      http_post env search_url headers [(''q'', q), (''kl'', [])] (cookies r) = Inr r' \<and>
      html_parser env (resp_text r') = Inl e \<longrightarrow>
        search_duckduckgo env q limit = Inl e)"
  by (simp add: search_def search_duckduckgo_def split: sum.splits)

theorem search_failure_response_witness:
  "http_get (failing_env (RequestError ''All connection attempts failed'')) search_url headers False
     = Inl (RequestError ''All connection attempts failed'')
   \<and> search (failing_env (RequestError ''All connection attempts failed'')) ''test'' 5 =
       HttpResponse 200 (SearchFailure ''test'' ''All connection attempts failed'' [])"
proof -
  let ?e = "RequestError ''All connection attempts failed''"
  have g: "http_get (failing_env ?e) search_url headers False = Inl ?e"
    by (simp add: failing_env_def)
  note t = search_failure_response [of "failing_env ?e" "''test''" 5 ?e]
  from t g have "search_duckduckgo (failing_env ?e) ''test'' 5 = Inl ?e" by blast
  with t have "search (failing_env ?e) ''test'' 5 = HttpResponse 200 (SearchFailure ''test'' (str ?e) [])"
    by blast
  with g show ?thesis by simp
qed

text \<open>
  The claim C2 as stated asks for a non-empty error string. A fetch that raises an
  exception with an empty message (as \<^verbatim>\<open>httpx\<close> timeouts have) gives the empty string.
\<close>

theorem search_error_may_be_empty:
  "search (failing_env (RequestError [])) ''test'' 5 = HttpResponse 200 (SearchFailure ''test'' [] [])
   \<and> \<not> (\<exists>m. m \<noteq> [] \<and>
           search (failing_env (RequestError [])) ''test'' 5 =
             HttpResponse 200 (SearchFailure ''test'' m []))"
  by (simp add: search_def search_duckduckgo_def failing_env_def)

text \<open>
  The outcomes of \<^verbatim>\<open>read\<close>, case by case: an \<^verbatim>\<open>httpx.RequestError\<close> from the fetch is
  answered 400 with detail \<^verbatim>\<open>Error fetching URL: <message>\<close>, and whenever the fetch raises
  the parser has no part in the outcome; any other exception, from the fetch or from the
  extraction, is answered 500 with detail \<^verbatim>\<open>Error parsing content: <message>\<close>; when both
  return, the answer is 200 with url, title, content and status_code.
\<close>

lemma read_outcomes:
  "(http_get env u headers True = Inl e \<and> is_request_error e \<longrightarrow>
      read env u = HttpResponse 400 (DetailJson (''Error fetching URL: '' @ str e)))
   \<and> (http_get env u headers True = Inl e \<longrightarrow>
        read_url (env\<lparr>html_parser := p\<rparr>) u = read_url env u)
   \<and> (http_get env u headers True = Inl e \<and> \<not> is_request_error e \<longrightarrow>
        read env u = HttpResponse 500 (DetailJson (''Error parsing content: '' @ str e)))
   \<and> (http_get env u headers True = Inr r \<and> html_parser env (resp_text r) = Inl e \<and>
      \<not> is_request_error e \<longrightarrow>
        read env u = HttpResponse 500 (DetailJson (''Error parsing content: '' @ str e)))
   \<and> (http_get env u headers True = Inr r \<and> html_parser env (resp_text r) = Inr soup \<longrightarrow>
        read env u =
          HttpResponse 200
            (PageJson \<lparr>page_url = resp_url r, page_title = extract_title soup,
                       page_content = extract_content soup,
                       page_status_code = status_code r\<rparr>))"
  by (simp add: read_def read_url_def except_clauses_def)

lemma read_outcomes_examples:
  "read (failing_env (RequestError ''Name or service not known'')) ''http://nowhere.invalid'' =
     HttpResponse 400 (DetailJson ''Error fetching URL: Name or service not known'')
   \<and> read (static_env not_found_response (Inl (OtherException ''recursion depth exceeded'')))
        ''http://example.com'' =
     HttpResponse 500 (DetailJson ''Error parsing content: recursion depth exceeded'')"
proof -
  let ?e = "RequestError ''Name or service not known''"
  let ?x = "OtherException ''recursion depth exceeded''"
  have g: "http_get (failing_env ?e) ''http://nowhere.invalid'' headers True = Inl ?e"
    by (simp add: failing_env_def)
  have a: "read (failing_env ?e) ''http://nowhere.invalid'' =
     HttpResponse 400 (DetailJson ''Error fetching URL: Name or service not known'')"
    using read_outcomes [of "failing_env ?e" "''http://nowhere.invalid''" ?e] g by simp
  have h: "http_get (static_env not_found_response (Inl ?x)) ''http://example.com'' headers True
             = Inr not_found_response"
          "html_parser (static_env not_found_response (Inl ?x)) (resp_text not_found_response)
             = Inl ?x"
    by (simp_all add: static_env_def)
  have b: "read (static_env not_found_response (Inl ?x)) ''http://example.com'' =
     HttpResponse 500 (DetailJson ''Error parsing content: recursion depth exceeded'')"
    using read_outcomes [of "static_env not_found_response (Inl ?x)" "''http://example.com''"
        ?x _ not_found_response] h by simp
  from a b show ?thesis by blast
qed

text \<open>
  C3. The claim answers a failed fetch with 400 and \<^verbatim>\<open>Error fetching URL\<close>, and keeps 500
  and \<^verbatim>\<open>Error parsing content\<close> for a failure of the extraction after a successful fetch.
  The program departs from it where the fetch fails with an exception that is not an
  \<^verbatim>\<open>httpx.RequestError\<close>: for a URL with a malformed port the client raises
  \<^verbatim>\<open>httpx.InvalidURL\<close> before any connection, the second \<^verbatim>\<open>except\<close> clause catches it, and
  the answer is 500 with \<^verbatim>\<open>Error parsing content\<close>, although nothing was fetched and
  nothing parsed.
\<close>

theorem read_invalid_url_is_500:
  "http_get (failing_env (OtherException ''Invalid port'')) ''http://example.com:abc'' headers True
     = Inl (OtherException ''Invalid port'')
   \<and> \<not> is_request_error (OtherException ''Invalid port'')
   \<and> read (failing_env (OtherException ''Invalid port'')) ''http://example.com:abc'' =
       HttpResponse 500 (DetailJson ''Error parsing content: Invalid port'')
   \<and> status (read (failing_env (OtherException ''Invalid port'')) ''http://example.com:abc'') \<noteq> 200"
  by (simp add: read_def read_url_def except_clauses_def failing_env_def)






section \<open>Properties of the content extractor\<close>

lemma re_sub_newlines_Nil_iff [simp]: "re_sub_newlines s = [] \<longleftrightarrow> s = []"
  by (cases s) auto

lemma hd_re_sub_newlines: "hd (re_sub_newlines s) = hd s"
  by (cases s) auto

lemma hd_dropWhile_newline:
  "dropWhile (\<lambda>d. d = newline) cs \<noteq> [] \<Longrightarrow> hd (dropWhile (\<lambda>d. d = newline) cs) \<noteq> newline"
  using hd_dropWhile [of "\<lambda>d. d = newline" cs] by simp

lemma sublist_pair_Cons:
  "sublist [a, b] (c # cs) \<longleftrightarrow> (a = c \<and> cs \<noteq> [] \<and> hd cs = b) \<or> sublist [a, b] cs"
  by (cases cs) (auto simp: sublist_Cons_right)

lemma re_sub_newlines_no_double: "\<not> sublist [newline, newline] (re_sub_newlines s)"
proof (induction s rule: re_sub_newlines.induct)
  case 1
  show ?case by simp
next
  case (2 c cs)
  show ?case
  proof (cases "c = newline")
    case True
    with 2 show ?thesis
      using hd_dropWhile_newline [of cs]
      by (auto simp: sublist_pair_Cons hd_re_sub_newlines)
  next
    case False
    with 2 show ?thesis by (auto simp: sublist_pair_Cons)
  qed
qed

lemma re_sub_newlines_run:
  "s = [] \<or> hd s \<noteq> newline \<Longrightarrow>
   re_sub_newlines (replicate (Suc n) newline @ s) = newline # re_sub_newlines s"
proof -
  assume a: "s = [] \<or> hd s \<noteq> newline"
  have "dropWhile (\<lambda>d. d = newline) s = s"
    using a by (cases s) auto
  then have "dropWhile (\<lambda>d. d = newline) (replicate n newline @ s) = s"
    by (induction n) auto
  then show ?thesis by simp
qed

lemma last_re_sub_newlines: "last (re_sub_newlines s) = last s"
proof (induction s rule: re_sub_newlines.induct)
  case 1
  show ?case by simp
next
  case (2 c cs)
  show ?case
  proof (cases "c = newline")
    case True
    show ?thesis
    proof (cases "dropWhile (\<lambda>d. d = newline) cs = []")
      case e: True
      then have all: "\<forall>x \<in> set cs. x = newline" by simp
      have "last (c # cs) = newline"
      proof (cases "cs = []")
        case True
        with \<open>c = newline\<close> show ?thesis by simp
      next
        case False
        then have "last cs \<in> set cs" by simp
        with all False show ?thesis by simp
      qed
      moreover have "re_sub_newlines (c # cs) = [newline]"
        using \<open>c = newline\<close> e by simp
      ultimately show ?thesis by simp
    next
      case ne: False
      then have "cs \<noteq> []" by auto
      have "last (dropWhile (\<lambda>d. d = newline) cs) = last cs"
        using ne by (metis last_appendR takeWhile_dropWhile_id)
      with True ne 2 \<open>cs \<noteq> []\<close> show ?thesis by auto
    qed
  next
    case False
    with 2 show ?thesis by simp
  qed
qed

lemma strip_ends:
  assumes "strip s \<noteq> []"
  shows "\<not> is_space (hd (strip s))" "\<not> is_space (last (strip s))"
proof -
  let ?t = "dropWhile is_space s"
  let ?r = "dropWhile is_space (rev ?t)"
  from assms have r: "?r \<noteq> []" by (simp add: strip_def)
  have t: "?t \<noteq> []"
  proof
    assume "?t = []"
    then have "?r = []" by (simp only: rev.simps dropWhile.simps)
    with r show False ..
  qed
  have "last ?r = last (rev ?t)"
    using r by (metis last_appendR takeWhile_dropWhile_id)
  then have "hd (strip s) = hd ?t" using r t by (simp add: strip_def hd_rev last_rev)
  with t show "\<not> is_space (hd (strip s))" using hd_dropWhile [of is_space s] by simp
  have "last (strip s) = hd ?r" using r by (simp add: strip_def last_rev)
  with r show "\<not> is_space (last (strip s))" using hd_dropWhile [of is_space "rev ?t"] by simp
qed

lemma join_ends:
  "ps \<noteq> [] \<Longrightarrow> \<forall>p \<in> set ps. p \<noteq> [] \<Longrightarrow>
   join sep ps \<noteq> [] \<and> hd (join sep ps) = hd (hd ps) \<and> last (join sep ps) = last (last ps)"
  by (induction sep ps rule: join.induct) auto

lemma get_text_ends:
  assumes "get_text sep t \<noteq> []"
  shows "\<not> is_space (hd (get_text sep t))" "\<not> is_space (last (get_text sep t))"
proof -
  let ?ps = "stripped_strings t"
  from assms have ne: "?ps \<noteq> []" by (auto simp: get_text_def)
  have all: "\<forall>p \<in> set ?ps. p \<noteq> []" by (simp add: stripped_strings_def)
  have "hd ?ps \<in> set ?ps" "last ?ps \<in> set ?ps" using ne by simp_all
  then obtain a b where "hd ?ps = strip a" "strip a \<noteq> []" "last ?ps = strip b" "strip b \<noteq> []"
    by (auto simp: stripped_strings_def)
  with join_ends [OF ne all, of sep] strip_ends [of a] strip_ends [of b]
  show "\<not> is_space (hd (get_text sep t))" "\<not> is_space (last (get_text sep t))"
    by (simp_all add: get_text_def)
qed

lemma serialized_text_ends:
  assumes "serialized_text soup \<noteq> []"
  shows "\<not> is_space (hd (serialized_text soup))" "\<not> is_space (last (serialized_text soup))"
  using assms get_text_ends
  by (auto simp: serialized_text_def Let_def split: option.splits)

lemma is_space_newline: "is_space newline"
  by (simp add: is_space_def newline_def)

lemma split_lines_not_Nil [simp]: "split_lines s \<noteq> []"
  by (induction s) (auto split: list.splits)

lemma hd_split_lines_Nil: "hd (split_lines s) = [] \<longleftrightarrow> s = [] \<or> hd s = newline"
  by (cases s) (auto split: list.splits)

lemma tl_split_lines_empty:
  "[] \<in> set (tl (split_lines s)) \<Longrightarrow>
   s \<noteq> [] \<and> (last s = newline \<or> sublist [newline, newline] s)"
proof (induction s)
  case Nil
  then show ?case by simp
next
  case (Cons c cs)
  show ?case
  proof (cases "c = newline")
    case True
    with Cons.prems have "[] \<in> set (split_lines cs)" by simp
    then have "hd (split_lines cs) = [] \<or> [] \<in> set (tl (split_lines cs))"
      by (cases "split_lines cs") auto
    then show ?thesis
    proof
      assume "hd (split_lines cs) = []"
      then have "cs = [] \<or> hd cs = newline" by (simp add: hd_split_lines_Nil)
      with True show ?thesis by (cases cs) (auto simp: sublist_pair_Cons)
    next
      assume "[] \<in> set (tl (split_lines cs))"
      with Cons.IH show ?thesis by (auto simp: sublist_pair_Cons)
    qed
  next
    case False
    with Cons.prems have "[] \<in> set (tl (split_lines cs))"
      by (cases "split_lines cs") auto
    with Cons.IH show ?thesis by (auto simp: sublist_pair_Cons)
  qed
qed

lemma empty_line_cases:
  "[] \<in> set (split_lines s) \<Longrightarrow>
   s = [] \<or> hd s = newline \<or> last s = newline \<or> sublist [newline, newline] s"
proof -
  assume "[] \<in> set (split_lines s)"
  then have "hd (split_lines s) = [] \<or> [] \<in> set (tl (split_lines s))"
    by (cases "split_lines s") auto
  then show ?thesis
    using hd_split_lines_Nil [of s] tl_split_lines_empty [of s] by blast
qed

text \<open>
  C8 (amended). The content is the serialized text with every run of newlines replaced by
  one newline: a run of one or more newlines followed by something else becomes a single
  newline, and every other character is kept. So the content never has two newlines in a
  row, and (the serialized pieces being stripped) it neither starts nor ends with a
  newline: it has no empty line. A document whose serialized text is \<^verbatim>\<open>A\n\n\nB\<close> gives
  the content \<^verbatim>\<open>A\nB\<close>. (Lines are not trimmed one by one: a line of other white space
  inside one text node stays.)
\<close>

theorem newline_runs_collapsed:
  "extract_content soup = re_sub_newlines (serialized_text soup)
   \<and> \<not> sublist [newline, newline] (extract_content soup)
   \<and> (extract_content soup \<noteq> [] \<longrightarrow>
        hd (extract_content soup) \<noteq> newline \<and> last (extract_content soup) \<noteq> newline
        \<and> [] \<notin> set (split_lines (extract_content soup)))
   \<and> (\<forall>n s. s = [] \<or> hd s \<noteq> newline \<longrightarrow>
        re_sub_newlines (replicate (Suc n) newline @ s) = newline # re_sub_newlines s)
   \<and> (\<forall>c s. c \<noteq> newline \<longrightarrow> re_sub_newlines (c # s) = c # re_sub_newlines s)
   \<and> (serialized_text soup = ''A'' @ [newline, newline, newline] @ ''B'' \<longrightarrow>
        extract_content soup = ''A'' @ [newline] @ ''B'')"
proof -
  have a: "\<not> sublist [newline, newline] (extract_content soup)"
    by (simp add: extract_content_def re_sub_newlines_no_double)
  have b: "hd (extract_content soup) \<noteq> newline \<and> last (extract_content soup) \<noteq> newline"
    if "extract_content soup \<noteq> []"
  proof -
    from that have "serialized_text soup \<noteq> []" by (simp add: extract_content_def)
    from serialized_text_ends [OF this] is_space_newline show ?thesis
      by (auto simp: extract_content_def hd_re_sub_newlines last_re_sub_newlines)
  qed
  have b': "[] \<notin> set (split_lines (extract_content soup))" if "extract_content soup \<noteq> []"
    using that a b [OF that] empty_line_cases [of "extract_content soup"] by blast
  have c: "re_sub_newlines (''A'' @ [newline, newline, newline] @ ''B'') = ''A'' @ [newline] @ ''B''"
    by (simp add: newline_def)
  have d: "extract_content soup = re_sub_newlines (serialized_text soup)"
    by (simp add: extract_content_def)
  have e: "\<forall>n s. s = [] \<or> hd s \<noteq> newline \<longrightarrow>
        re_sub_newlines (replicate (Suc n) newline @ s) = newline # re_sub_newlines s"
    using re_sub_newlines_run by blast
  have f: "\<forall>c s. c \<noteq> newline \<longrightarrow> re_sub_newlines (c # s) = c # re_sub_newlines s"
    by simp
  have g: "serialized_text soup = ''A'' @ [newline, newline, newline] @ ''B'' \<longrightarrow>
        extract_content soup = ''A'' @ [newline] @ ''B''"
    using c by (simp add: extract_content_def)
  from a b b' d e f g show ?thesis by blast
qed

lemma blank_lines_serialized:
  "serialized_text blank_lines_soup = ''A'' @ [newline, newline, newline] @ ''B''"
  by (simp add: serialized_text_def blank_lines_soup_def boilerplate_def
      main_content_def find_tag_def find_all_def or_else_def get_text_def stripped_strings_def
      all_strings_def List.map_filter_def strip_def is_space_def newline_def)

theorem newline_runs_collapsed_witness:
  "serialized_text blank_lines_soup = ''A'' @ [newline, newline, newline] @ ''B''
   \<and> extract_content blank_lines_soup = ''A'' @ [newline] @ ''B''
   \<and> split_lines (extract_content blank_lines_soup) = [''A'', ''B'']
   \<and> [] \<notin> set (split_lines (extract_content blank_lines_soup))
   \<and> re_sub_newlines (replicate (Suc 2) newline @ ''B'') = newline # re_sub_newlines ''B''"
proof -
  note t = newline_runs_collapsed [of blank_lines_soup]
  have h: "''B'' = [] \<or> hd ''B'' \<noteq> newline" by (simp add: newline_def)
  from t blank_lines_serialized have a: "extract_content blank_lines_soup = ''A'' @ [newline] @ ''B''"
    by blast
  then have ne: "extract_content blank_lines_soup \<noteq> []" by simp
  with t have b: "[] \<notin> set (split_lines (extract_content blank_lines_soup))" by blast
  have c: "split_lines (extract_content blank_lines_soup) = [''A'', ''B'']"
    unfolding a by (simp add: newline_def)
  from t h have "re_sub_newlines (replicate (Suc 2) newline @ ''B'') = newline # re_sub_newlines ''B''"
    by blast
  with a b c blank_lines_serialized show ?thesis by blast
qed

text \<open>
  The claim C8 as stated says the content has no blank lines. The text nodes are stripped,
  not the lines in them: a text node \<^verbatim>\<open>A\n \nB\<close> keeps its middle line, a line with
  nothing but a space.
\<close>

theorem white_space_line_kept:
  "serialized_text space_line_soup = ''A'' @ [newline] @ '' '' @ [newline] @ ''B''
   \<and> extract_content space_line_soup = ''A'' @ [newline] @ '' '' @ [newline] @ ''B''
   \<and> split_lines (extract_content space_line_soup) = [''A'', '' '', ''B'']
   \<and> has_blank_line (extract_content space_line_soup)"
proof -
  have s: "serialized_text space_line_soup = ''A'' @ [newline] @ '' '' @ [newline] @ ''B''"
    by (simp add: serialized_text_def space_line_soup_def boilerplate_def
      main_content_def find_tag_def find_all_def or_else_def get_text_def stripped_strings_def
      all_strings_def List.map_filter_def strip_def is_space_def newline_def)
  have e: "extract_content space_line_soup = ''A'' @ [newline] @ '' '' @ [newline] @ ''B''"
    unfolding extract_content_def s by (simp add: newline_def)
  have l: "split_lines (extract_content space_line_soup) = [''A'', '' '', ''B'']"
    unfolding e by (simp add: newline_def)
  have "has_blank_line (extract_content space_line_soup)"
    unfolding has_blank_line_def l by (simp add: is_space_def)
  with s e l show ?thesis by blast
qed

lemma map_filter_append: "List.map_filter f (xs @ ys) = List.map_filter f xs @ List.map_filter f ys"
  by (simp add: List.map_filter_def)

lemma map_filter_concat:
  "List.map_filter f (concat xss) = concat (map (List.map_filter f) xss)"
proof (induction xss)
  case Nil
  show ?case by (simp add: List.map_filter_def)
next
  case (Cons xs xss)
  then show ?case by (simp add: map_filter_append)
qed

lemma named_outside_Nil: "named ns k \<Longrightarrow> text_nodes_outside ns k = []"
  by (cases k) auto

lemma concat_map_filter_skip:
  "(\<And>x. x \<in> set xs \<Longrightarrow> \<not> P x \<Longrightarrow> f x = []) \<Longrightarrow>
   concat (map f (filter P xs)) = concat (map f xs)"
  by (induction xs) auto

lemma strings_decompose:
  "\<not> named ns k \<Longrightarrow>
   List.map_filter string_of (decompose_all ns k # descendants (decompose_all ns k)) =
     text_nodes_outside ns k"
proof (induction k)
  case (Tag n c a ks)
  have ih: "List.map_filter string_of (decompose_all ns k # descendants (decompose_all ns k)) =
     text_nodes_outside ns k" if "k \<in> set (filter (\<lambda>k. \<not> named ns k) ks)" for k
    using that Tag.IH by simp
  have "List.map_filter string_of
          (decompose_all ns (Tag n c a ks) # descendants (decompose_all ns (Tag n c a ks))) =
        concat (map (\<lambda>k. List.map_filter string_of
                       (decompose_all ns k # descendants (decompose_all ns k)))
                  (filter (\<lambda>k. \<not> named ns k) ks))"
    by (simp add: map_filter_concat comp_def)
  also have "\<dots> = concat (map (text_nodes_outside ns) (filter (\<lambda>k. \<not> named ns k) ks))"
    using ih by (metis (no_types, lifting) map_eq_conv)
  also have "\<dots> = concat (map (text_nodes_outside ns) ks)"
    by (rule concat_map_filter_skip) (simp add: named_outside_Nil)
  finally show ?case using Tag.prems by simp
next
  case (NavigableString s)
  show ?case by (simp add: List.map_filter_def)
next
  case (Comment s)
  show ?case by (simp add: List.map_filter_def)
qed

lemma all_strings_decompose:
  "all_strings (decompose_all ns t) = outside_strings ns t"
proof (cases t)
  case (Tag n c a ks)
  have "all_strings (decompose_all ns t) =
        concat (map (\<lambda>k. List.map_filter string_of
                       (decompose_all ns k # descendants (decompose_all ns k)))
                  (filter (\<lambda>k. \<not> named ns k) ks))"
    by (simp add: Tag all_strings_def map_filter_concat comp_def)
  also have "\<dots> = concat (map (text_nodes_outside ns) (filter (\<lambda>k. \<not> named ns k) ks))"
    using strings_decompose by (metis (mono_tags, lifting) map_eq_conv mem_Collect_eq set_filter)
  also have "\<dots> = concat (map (text_nodes_outside ns) ks)"
    by (rule concat_map_filter_skip) (simp add: named_outside_Nil)
  finally show ?thesis by (simp add: Tag)
qed (simp_all add: all_strings_def List.map_filter_def)

lemma sublist_concat_member:
  "xs \<in> set xss \<Longrightarrow> sublist xs (concat xss)"
proof -
  assume "xs \<in> set xss"
  then obtain ps ss where "xss = ps @ xs # ss" by (meson split_list)
  then have "concat xss = concat ps @ xs @ concat ss" by simp
  then show ?thesis by (metis sublist_appendI)
qed

lemma descendants_sublist:
  "m \<in> set (descendants t) \<Longrightarrow> sublist (descendants m) (descendants t)"
proof (induction t)
  case (Tag n c a ks)
  then obtain k where k: "k \<in> set ks" "m = k \<or> m \<in> set (descendants k)" by auto
  have "sublist (k # descendants k) (descendants (Tag n c a ks))"
    using k(1) by (auto intro!: sublist_concat_member)
  then have top: "sublist (descendants k) (descendants (Tag n c a ks))"
    by (meson sublist_Cons_right sublist_order.order_trans sublist_order.order_refl)
  from k(2) show ?case
  proof
    assume "m = k"
    with top show ?thesis by simp
  next
    assume "m \<in> set (descendants k)"
    with Tag.IH k(1) have "sublist (descendants m) (descendants k)" by simp
    with top show ?thesis using sublist_order.order_trans by blast
  qed
qed simp_all

lemma sublist_map_filter:
  "sublist xs ys \<Longrightarrow> sublist (List.map_filter f xs) (List.map_filter f ys)"
proof -
  assume "sublist xs ys"
  then obtain ps ss where "ys = ps @ xs @ ss" by (auto simp: sublist_def)
  then have "List.map_filter f ys =
      List.map_filter f ps @ List.map_filter f xs @ List.map_filter f ss"
    by (simp add: map_filter_append)
  then show ?thesis by (metis sublist_appendI)
qed

lemma all_strings_sublist:
  "m \<in> set (descendants t) \<Longrightarrow> sublist (all_strings m) (all_strings t)"
  by (simp add: all_strings_def descendants_sublist sublist_map_filter)

lemma find_tag_descendant: "find_tag p t = Some m \<Longrightarrow> m \<in> set (descendants t) \<and> p m"
proof -
  assume "find_tag p t = Some m"
  then obtain rest where "filter p (descendants t) = m # rest"
    by (auto simp: find_tag_def find_all_def split: list.splits)
  then have "m \<in> set (filter p (descendants t))" by simp
  then show ?thesis by simp
qed

lemma main_content_descendant: "main_content t = Some m \<Longrightarrow> m \<in> set (descendants t)"
  by (auto simp: main_content_def or_else_def split: option.splits dest: find_tag_descendant)

lemma decompose_no_named:
  "e \<in> set (descendants (decompose_all ns t)) \<Longrightarrow> \<not> named ns e"
proof (induction t arbitrary: e)
  case (Tag n c a ks)
  then obtain k where k: "k \<in> set ks" "\<not> named ns k"
    "e = decompose_all ns k \<or> e \<in> set (descendants (decompose_all ns k))" by auto
  from k(3) show ?case
  proof
    assume "e = decompose_all ns k"
    with k(2) show ?thesis by (cases k) auto
  next
    assume "e \<in> set (descendants (decompose_all ns k))"
    with Tag.IH k(1) show ?thesis by simp
  qed
qed simp_all

text \<open>
  C7. The strings that make up the extracted content are consecutive strings among those
  of the document that lie outside every \<^verbatim>\<open>script\<close>, \<^verbatim>\<open>style\<close>, \<^verbatim>\<open>nav\<close>, \<^verbatim>\<open>header\<close>,
  \<^verbatim>\<open>footer\<close> and \<^verbatim>\<open>aside\<close> element, each stripped: no string from inside such an element
  takes part, wherever the element sits, also inside the chosen container. After the
  removal the document has no such element left, so none can be chosen or serialized.
\<close>

theorem boilerplate_text_excluded:
  "(\<exists>ts. sublist ts (outside_strings boilerplate soup)
        \<and> serialized_text soup = join [newline] (filter (\<lambda>s. s \<noteq> []) (map strip ts))
        \<and> extract_content soup =
            re_sub_newlines (join [newline] (filter (\<lambda>s. s \<noteq> []) (map strip ts))))
   \<and> (\<forall>e \<in> set (descendants (decompose_all boilerplate soup)). \<not> named boilerplate e)"
proof -
  let ?d = "decompose_all boilerplate soup"
  have "\<exists>ts. sublist ts (all_strings ?d)
        \<and> serialized_text soup = join [newline] (filter (\<lambda>s. s \<noteq> []) (map strip ts))"
  proof (cases "main_content ?d")
    case None
    then have "serialized_text soup = join [newline] (filter (\<lambda>s. s \<noteq> []) (map strip (all_strings ?d)))"
      by (simp add: serialized_text_def get_text_def stripped_strings_def)
    then show ?thesis by blast
  next
    case (Some m)
    then have "serialized_text soup = join [newline] (filter (\<lambda>s. s \<noteq> []) (map strip (all_strings m)))"
      by (simp add: serialized_text_def get_text_def stripped_strings_def)
    moreover have "sublist (all_strings m) (all_strings ?d)"
      using Some by (simp add: main_content_descendant all_strings_sublist)
    ultimately show ?thesis by blast
  qed
  then show ?thesis
    by (auto simp: all_strings_decompose extract_content_def decompose_no_named)
qed

lemma script_soup_outside:
  "outside_strings boilerplate script_soup = [''Hello'', ''World'']"
  by (simp add: script_soup_def boilerplate_def)

lemma script_soup_content:
  "extract_content script_soup = ''Hello'' @ [newline] @ ''World''"
  by (simp add: extract_content_def serialized_text_def script_soup_def boilerplate_def
      main_content_def find_tag_def find_all_def or_else_def get_text_def stripped_strings_def
      all_strings_def List.map_filter_def strip_def is_space_def newline_def)

theorem boilerplate_text_excluded_witness:
  "(\<exists>ts. sublist ts [''Hello'', ''World'']
        \<and> extract_content script_soup =
            re_sub_newlines (join [newline] (filter (\<lambda>s. s \<noteq> []) (map strip ts))))
   \<and> extract_content script_soup = ''Hello'' @ [newline] @ ''World''"
proof -
  from boilerplate_text_excluded [of script_soup]
  have "\<exists>ts. sublist ts (outside_strings boilerplate script_soup)
        \<and> extract_content script_soup =
            re_sub_newlines (join [newline] (filter (\<lambda>s. s \<noteq> []) (map strip ts)))"
    by blast
  then show ?thesis unfolding script_soup_outside using script_soup_content by blast
qed

lemma find_tag_find: "find_tag p t = List.find p (descendants t)"
  by (simp add: find_tag_def find_all_def first_of_filter)

lemma member_sublist_join: "c \<in> set cs \<Longrightarrow> sublist c (join sep cs)"
proof (induction sep cs rule: join.induct)
  case (1 sep)
  then show ?case by simp
next
  case (2 sep x)
  then show ?case by simp
next
  case (3 sep x y ys)
  show ?case
  proof (cases "c = x")
    case True
    then show ?thesis by simp
  next
    case False
    with 3 have "sublist c (join sep (y # ys))" by simp
    then obtain ps ss where "join sep (y # ys) = ps @ c @ ss" by (auto simp: sublist_def)
    then have "join sep (x # y # ys) = (x @ sep @ ps) @ c @ ss" by simp
    then show ?thesis unfolding sublist_def by blast
  qed
qed

lemma class_matches_joined:
  "class_matches (re_search pats) (Tag n cs a ks) \<longleftrightarrow>
     (\<exists>p \<in> set pats. sublist p (join '' '' cs))"
proof -
  have "\<exists>p \<in> set pats. sublist p (join '' '' cs)"
    if "c \<in> set cs" "p \<in> set pats" "sublist p c" for c p
    using that member_sublist_join [of c cs "'' ''"] sublist_order.order_trans by blast
  then show ?thesis
    by (auto simp: re_search_def list_ex_iff)
qed

text \<open>
  C1 (amended). In the document that is left after the removal of the boilerplate
  elements, the main-content container is chosen by a fixed priority, the first match
  winning: the first \<^verbatim>\<open>main\<close> element in document order; else the first \<^verbatim>\<open>article\<close>
  element; else the first \<^verbatim>\<open>div\<close> element whose class attribute contains one of the
  words content, article, post, main; else the body; and when there is none of these,
  the whole remaining document is serialized. In particular a document with a \<^verbatim>\<open>main\<close>
  element has that element's text as its content, whether or not it has an \<^verbatim>\<open>article\<close>.
  The class test of the library (on each token, then on the tokens joined) is the same as
  a substring test on the joined class attribute.
\<close>

theorem main_content_priority:
  assumes "d = decompose_all boilerplate soup"
  shows "main_content d =
           (case List.find (named [''main'']) (descendants d) of
              Some m \<Rightarrow> Some m
            | None \<Rightarrow>
               (case List.find (named [''article'']) (descendants d) of
                  Some a \<Rightarrow> Some a
                | None \<Rightarrow>
                   (case List.find (\<lambda>e. named [''div''] e \<and>
                                       class_matches (re_search content_pattern) e)
                           (descendants d) of
                      Some v \<Rightarrow> Some v
                    | None \<Rightarrow> List.find (named [''body'']) (descendants d))))
       \<and> serialized_text soup =
           (case main_content d of
              Some m \<Rightarrow> get_text [newline] m
            | None \<Rightarrow> get_text [newline] d)
       \<and> (\<forall>m. List.find (named [''main'']) (descendants d) = Some m \<longrightarrow>
             main_content d = Some m \<and> serialized_text soup = get_text [newline] m)
       \<and> (\<forall>n cs a ks. class_matches (re_search content_pattern) (Tag n cs a ks) \<longleftrightarrow>
             (\<exists>p \<in> set content_pattern. sublist p (join '' '' cs)))"
proof -
  have a: "main_content d =
           (case List.find (named [''main'']) (descendants d) of
              Some m \<Rightarrow> Some m
            | None \<Rightarrow>
               (case List.find (named [''article'']) (descendants d) of
                  Some a \<Rightarrow> Some a
                | None \<Rightarrow>
                   (case List.find (\<lambda>e. named [''div''] e \<and>
                                       class_matches (re_search content_pattern) e)
                           (descendants d) of
                      Some v \<Rightarrow> Some v
                    | None \<Rightarrow> List.find (named [''body'']) (descendants d))))"
    by (simp add: main_content_def or_else_def find_tag_find)
  have b: "serialized_text soup =
           (case main_content d of
              Some m \<Rightarrow> get_text [newline] m
            | None \<Rightarrow> get_text [newline] d)"
    unfolding assms by (simp add: serialized_text_def Let_def)
  have c: "main_content d = Some m \<and> serialized_text soup = get_text [newline] m"
    if "List.find (named [''main'']) (descendants d) = Some m" for m
    using that by (simp add: b) (simp add: main_content_def or_else_def find_tag_find)
  from a b c class_matches_joined show ?thesis by blast
qed

lemma main_article_descendants:
  "descendants (decompose_all boilerplate main_article_soup) =
     [Tag ''body'' [] []
          [Tag ''article'' [] [] [NavigableString ''Article''],
           Tag ''main'' [] [] [NavigableString ''Main'']],
      Tag ''article'' [] [] [NavigableString ''Article''], NavigableString ''Article'',
      Tag ''main'' [] [] [NavigableString ''Main''], NavigableString ''Main'']"
  by (simp add: main_article_soup_def boilerplate_def)

lemma get_text_Main: "get_text [newline] (Tag ''main'' [] [] [NavigableString ''Main'']) = ''Main''"
  by (simp add: get_text_def stripped_strings_def all_strings_def List.map_filter_def
      strip_def is_space_def)

theorem main_content_priority_witness:
  "List.find (named [''main'']) (descendants (decompose_all boilerplate main_article_soup)) =
     Some (Tag ''main'' [] [] [NavigableString ''Main''])
   \<and> List.find (named [''article'']) (descendants (decompose_all boilerplate main_article_soup)) =
     Some (Tag ''article'' [] [] [NavigableString ''Article''])
   \<and> main_content (decompose_all boilerplate main_article_soup) =
       Some (Tag ''main'' [] [] [NavigableString ''Main''])
   \<and> serialized_text main_article_soup = ''Main''"
proof -
  let ?d = "decompose_all boilerplate main_article_soup"
  have m: "List.find (named [''main'']) (descendants ?d) =
     Some (Tag ''main'' [] [] [NavigableString ''Main''])"
    by (simp add: main_article_descendants)
  have a: "List.find (named [''article'']) (descendants ?d) =
     Some (Tag ''article'' [] [] [NavigableString ''Article''])"
    by (simp add: main_article_descendants)
  from main_content_priority [OF refl, of main_article_soup] m
  have "main_content ?d = Some (Tag ''main'' [] [] [NavigableString ''Main''])
      \<and> serialized_text main_article_soup =
          get_text [newline] (Tag ''main'' [] [] [NavigableString ''Main''])"
    by blast
  with m a show ?thesis by (simp add: get_text_Main)
qed

lemma re_search_content:
  "re_search content_pattern ''content''" "\<not> re_search content_pattern []"
  by (simp_all add: re_search_def content_pattern_def)

lemma section_descendants:
  "descendants (decompose_all boilerplate section_soup) =
     [Tag ''body'' [] []
          [Tag ''section'' [''content''] [] [NavigableString ''X''],
           NavigableString ''Y''],
      Tag ''section'' [''content''] [] [NavigableString ''X''], NavigableString ''X'',
      NavigableString ''Y'']"
  by (simp add: section_soup_def boilerplate_def)

text \<open>
  The claim C1 as stated lets the third step choose an element of any tag. A document
  with no \<^verbatim>\<open>main\<close>, no \<^verbatim>\<open>article\<close>, and a \<^verbatim>\<open>section\<close> of class \<^verbatim>\<open>content\<close> inside its body
  shows the difference: the stated priority picks the section, the program picks the body.
\<close>

theorem class_match_needs_div:
  "claimed_main_content (decompose_all boilerplate section_soup) =
     Some (Tag ''section'' [''content''] [] [NavigableString ''X''])
   \<and> main_content (decompose_all boilerplate section_soup) =
       Some (Tag ''body'' [] []
               [Tag ''section'' [''content''] [] [NavigableString ''X''], NavigableString ''Y''])
   \<and> main_content (decompose_all boilerplate section_soup) \<noteq>
       claimed_main_content (decompose_all boilerplate section_soup)
   \<and> serialized_text section_soup = ''X'' @ [newline] @ ''Y''
   \<and> get_text [newline] (Tag ''section'' [''content''] [] [NavigableString ''X'']) = ''X''
   \<and> serialized_text section_soup \<noteq>
       get_text [newline] (Tag ''section'' [''content''] [] [NavigableString ''X''])"
proof -
  let ?d = "decompose_all boilerplate section_soup"
  have c: "claimed_main_content ?d = Some (Tag ''section'' [''content''] [] [NavigableString ''X''])"
    by (simp add: claimed_main_content_def or_else_def find_tag_find section_descendants
        re_search_content)
  have m: "main_content ?d = Some (Tag ''body'' [] []
               [Tag ''section'' [''content''] [] [NavigableString ''X''], NavigableString ''Y''])"
    by (simp add: main_content_def or_else_def find_tag_find section_descendants)
  have g: "get_text [newline] (Tag ''section'' [''content''] [] [NavigableString ''X'']) = ''X''"
    by (simp add: get_text_def stripped_strings_def all_strings_def List.map_filter_def
        strip_def is_space_def)
  have s: "serialized_text section_soup = ''X'' @ [newline] @ ''Y''"
    by (simp add: serialized_text_def m)
       (simp add: get_text_def stripped_strings_def all_strings_def List.map_filter_def
        strip_def is_space_def)
  from c m g s show ?thesis by simp
qed

end
